theory Spec2Isabelle
  imports Main "HOL-Library.Sublist" "HOL-Library.Multiset"
begin

section \<open>JavaScript strings\<close>

text \<open>
  A JavaScript string is a sequence of UTF-16 code units. The embedding covers the code
  units \<open>U+0000\<close> to \<open>U+00FF\<close>: a \<^typ>\<open>char\<close> is the code unit with that number, so
  \<^const>\<open>length\<close> is \<open>String.length\<close>. On this range \<open>toLowerCase\<close> works unit by
  unit: \<open>A\<close>-\<open>Z\<close> and \<open>U+00C0\<close>-\<open>U+00DE\<close> (the multiplication sign \<open>U+00D7\<close> apart)
  move up by 32, every other unit stays.
\<close>

definition toLowerChar :: "char \<Rightarrow> char" where
  "toLowerChar c =
     (let n = of_char c :: nat
      in if (65 \<le> n \<and> n \<le> 90) \<or> (192 \<le> n \<and> n \<le> 222 \<and> n \<noteq> 215)
         then char_of (n + 32) else c)"

definition toLowerCase :: "string \<Rightarrow> string" where
  "toLowerCase s = map toLowerChar s"

text \<open>
  The class \<open>\s\<close> of a regular expression and the characters \<open>trim\<close> strips are the
  same set (WhiteSpace and LineTerminator); below \<open>U+0100\<close> these are TAB, LF, VT, FF,
  CR, SPACE and NO-BREAK SPACE.
\<close>

definition isWhiteSpace :: "char \<Rightarrow> bool" where
  "isWhiteSpace c =
     (let n = of_char c :: nat in (9 \<le> n \<and> n \<le> 13) \<or> n = 32 \<or> n = 160)"

text \<open>The class \<open>\w\<close> is \<open>[A-Za-z0-9_]\<close>.\<close>

definition isWordChar :: "char \<Rightarrow> bool" where
  "isWordChar c =
     (let n = of_char c :: nat
      in (48 \<le> n \<and> n \<le> 57) \<or> (65 \<le> n \<and> n \<le> 90) \<or> n = 95 \<or> (97 \<le> n \<and> n \<le> 122))"

definition trimStart :: "string \<Rightarrow> string" where
  "trimStart s = dropWhile isWhiteSpace s"

definition trimEnd :: "string \<Rightarrow> string" where
  "trimEnd s = rev (dropWhile isWhiteSpace (rev s))"

definition trim :: "string \<Rightarrow> string" where
  "trim s = trimEnd (trimStart s)"

text \<open>
  \<open>s.includes(t)\<close>, named \<open>includes_js\<close> since Isabelle reserves the word:
  \<open>t\<close> occurs in \<open>s\<close> as a contiguous run.
\<close>

fun includes_js :: "string \<Rightarrow> string \<Rightarrow> bool" where
  "includes_js [] t = (t = [])"
| "includes_js (c # cs) t = (prefix t (c # cs) \<or> includes_js cs t)"

text \<open>\<open>s.replace(/[^\w\s]/g, '')\<close>\<close>

definition removeSpecial :: "string \<Rightarrow> string" where
  "removeSpecial s = filter (\<lambda>c. isWordChar c \<or> isWhiteSpace c) s"

text \<open>\<open>s.replace(/\s+/g, ' ')\<close>: every maximal run of white space becomes one space.\<close>

function collapseSpace :: "string \<Rightarrow> string" where
  "collapseSpace [] = []"
| "collapseSpace (c # cs) =
     (if isWhiteSpace c then CHR '' '' # collapseSpace (dropWhile isWhiteSpace cs)
      else c # collapseSpace cs)"
  by pat_completeness auto
termination
  by (relation "measure length") (auto simp: length_dropWhile_le less_Suc_eq_le)

text \<open>
  \<open>s.split(/\s+/)\<close>: the pieces between the maximal runs of white space; a run at
  either end of \<open>s\<close> leaves an empty piece there, and the empty string gives \<open>[""]\<close>.
\<close>

function split_ws :: "string \<Rightarrow> string list" where
  "split_ws [] = [[]]"
| "split_ws (c # cs) =
     (if isWhiteSpace c then [] # split_ws (dropWhile isWhiteSpace cs)
      else (case split_ws cs of [] \<Rightarrow> [[c]] | w # ws \<Rightarrow> (c # w) # ws))"
  by pat_completeness auto
termination
  by (relation "measure length") (auto simp: length_dropWhile_le less_Suc_eq_le)

text \<open>\<open>xs.join(sep)\<close>\<close>

fun join :: "string list \<Rightarrow> string \<Rightarrow> string" where
  "join [] sep = []"
| "join [x] sep = x"
| "join (x # y # ys) sep = x @ sep @ join (y # ys) sep"

text \<open>
  Truthiness of a value of type \<open>string | undefined\<close>: \<open>undefined\<close> and the empty
  string are falsy.
\<close>

fun truthy :: "string option \<Rightarrow> bool" where
  "truthy None = False"
| "truthy (Some s) = (s \<noteq> [])"

text \<open>
  \<open>xs.sort(cmp)\<close>: the sort is stable, and the comparator says \<open>a\<close> goes after \<open>b\<close>
  when \<open>cmp a b > 0\<close>. Insertion from the right gives the stable order.
\<close>

fun insert_by :: "('a \<Rightarrow> 'a \<Rightarrow> int) \<Rightarrow> 'a \<Rightarrow> 'a list \<Rightarrow> 'a list" where
  "insert_by cmp x [] = [x]"
| "insert_by cmp x (y # ys) =
     (if cmp x y \<le> 0 then x # y # ys else y # insert_by cmp x ys)"

definition sort_by :: "('a \<Rightarrow> 'a \<Rightarrow> int) \<Rightarrow> 'a list \<Rightarrow> 'a list" where
  "sort_by cmp xs = foldr (insert_by cmp) xs []"

section \<open>The data model of json-data-service.ts\<close>

record GeneralInfo =
  title :: string
  description :: string

record general_information_t =
  gallery_collection :: GeneralInfo
  gothic_style :: GeneralInfo

text \<open>The parameter object of \<open>searchSculptures\<close>.\<close>

record params =
  name :: "string option"
  artist :: "string option"
  location :: "string option"
  year :: "string option"

record Sculpture =
  name :: string
  year :: "string option"
  location :: "string option"
  artist :: "string option"
  cast_information :: "string option"
  original_material :: "string option"
  dimensions :: "string option"
  description :: "string option"
  style :: "string option"
  artifacts :: "string list option"
  original_information :: "string option"

record SculptureData =
  general_information :: general_information_t
  sculptures :: "Sculpture list"

record JsonDataService =
  data :: "SculptureData option"
  dataPath :: string

text \<open>
  The file system as \<open>loadData\<close> sees it: for a path, the document that \<open>readFile\<close>
  and \<open>JSON.parse\<close> give, or \<open>None\<close> when either of them throws (no such file, or text
  that is not JSON). A text that parses is taken to have the shape the interface
  \<open>SculptureData\<close> declares.
\<close>

type_synonym files = "string \<Rightarrow> SculptureData option"

definition new_JsonDataService :: "string \<Rightarrow> JsonDataService" where
  "new_JsonDataService p = \<lparr>data = None, dataPath = p\<rparr>"

definition get_sculptures :: "JsonDataService \<Rightarrow> Sculpture list" where
  "get_sculptures svc = (case data svc of None \<Rightarrow> [] | Some d \<Rightarrow> sculptures d)"

text \<open>
  Each method returns its result and the service afterwards. \<open>loadData\<close> catches
  whatever the read or the parse throws and answers \<open>false\<close>, leaving \<open>data\<close> as it was.
\<close>

definition loadData :: "files \<Rightarrow> JsonDataService \<Rightarrow> bool \<times> JsonDataService" where
  "loadData fs svc =
     (case fs (dataPath svc) of
        None \<Rightarrow> (False, svc)
      | Some d \<Rightarrow> (True, svc\<lparr>data := Some d\<rparr>))"

text \<open>\<open>if (!this.data) await this.loadData();\<close>\<close>

definition ensureLoaded :: "files \<Rightarrow> JsonDataService \<Rightarrow> JsonDataService" where
  "ensureLoaded fs svc = (if data svc = None then snd (loadData fs svc) else svc)"

definition normalizeName :: "string \<Rightarrow> string" where
  "normalizeName n = trim (collapseSpace (removeSpecial (toLowerCase n)))"

definition findSculptureByName ::
  "files \<Rightarrow> JsonDataService \<Rightarrow> string \<Rightarrow> Sculpture list \<times> JsonDataService" where
  "findSculptureByName fs svc0 nm =
     (let svc = ensureLoaded fs svc0 in
      case data svc of
        None \<Rightarrow> ([], svc)
      | Some d \<Rightarrow>
          let searchName = trim (toLowerCase nm);
              exactMatches = filter (\<lambda>s. toLowerCase (name s) = searchName) (sculptures d)
          in if length exactMatches > 0 then (exactMatches, svc)
             else
               let normalizedSearch = normalizeName searchName;
                   normalizedMatches =
                     filter (\<lambda>s. normalizeName (name s) = normalizedSearch) (sculptures d)
               in if length normalizedMatches > 0 then (normalizedMatches, svc)
                  else
                    (sort_by (\<lambda>a b. int (length (name b)) - int (length (name a)))
                       (filter (\<lambda>s. includes_js (toLowerCase (name s)) searchName)
                          (sculptures d)),
                     svc))"

definition getSculptureByName ::
  "files \<Rightarrow> JsonDataService \<Rightarrow> string \<Rightarrow> Sculpture option \<times> JsonDataService" where
  "getSculptureByName fs svc0 nm =
     (let (matches, svc) = findSculptureByName fs svc0 nm
      in (if length matches > 0 then Some (matches ! 0) else None, svc))"

text \<open>
  The predicate \<open>searchSculptures\<close> filters with. A criterion is applied when it is
  truthy; the three criteria on optional fields also need the record's field truthy.
\<close>

definition matchesParams :: "params \<Rightarrow> Sculpture \<Rightarrow> bool" where
  "matchesParams ps sculpture =
     (if truthy (params.name ps)
         \<and> \<not> includes_js (toLowerCase (name sculpture))
               (trim (toLowerCase (the (params.name ps))))
      then False
      else if truthy (params.artist ps) \<and> truthy (artist sculpture)
         \<and> \<not> includes_js (toLowerCase (the (artist sculpture)))
               (trim (toLowerCase (the (params.artist ps))))
      then False
      else if truthy (params.location ps) \<and> truthy (location sculpture)
         \<and> \<not> includes_js (toLowerCase (the (location sculpture)))
               (trim (toLowerCase (the (params.location ps))))
      then False
      else if truthy (params.year ps) \<and> truthy (year sculpture)
         \<and> \<not> includes_js (toLowerCase (the (year sculpture)))
               (trim (toLowerCase (the (params.year ps))))
      then False
      else True)"

definition searchSculptures ::
  "files \<Rightarrow> JsonDataService \<Rightarrow> params \<Rightarrow> Sculpture list \<times> JsonDataService" where
  "searchSculptures fs svc0 ps =
     (let svc = ensureLoaded fs svc0 in
      case data svc of
        None \<Rightarrow> ([], svc)
      | Some d \<Rightarrow>
          if \<not> truthy (params.name ps) \<and> \<not> truthy (params.artist ps)
             \<and> \<not> truthy (params.location ps) \<and> \<not> truthy (params.year ps)
          then ([], svc)
          else (filter (matchesParams ps) (sculptures d), svc))"

definition getGalleryInfo ::
  "files \<Rightarrow> JsonDataService \<Rightarrow> GeneralInfo option \<times> JsonDataService" where
  "getGalleryInfo fs svc0 =
     (let svc = ensureLoaded fs svc0 in
      (case data svc of
         None \<Rightarrow> None
       | Some d \<Rightarrow> Some (gallery_collection (general_information d)),
       svc))"

definition getGothicStyleInfo ::
  "files \<Rightarrow> JsonDataService \<Rightarrow> GeneralInfo option \<times> JsonDataService" where
  "getGothicStyleInfo fs svc0 =
     (let svc = ensureLoaded fs svc0 in
      (case data svc of
         None \<Rightarrow> None
       | Some d \<Rightarrow> Some (gothic_style (general_information d)),
       svc))"

section \<open>The session controller of session.ts\<close>

text \<open>
  An item for the upstream conversation client:
  \<open>{type: "message", role, content: [{type: "input_text", text}]}\<close>.
\<close>

datatype role = System | User

datatype rt_item = Message role string

text \<open>
  What \<open>enrichWithSculptureData\<close> asks of its collaborators, in the order of the calls:
  the two methods of the data service it awaits, and \<open>client.sendItem\<close>. The upstream
  client is outside the repository; a call that it rejects is caught and logged by the
  method, and no call follows the \<open>sendItem\<close>, so the calls issued do not depend on
  its answer.
\<close>

datatype call =
    Call_getSculptureByName string
  | Call_searchSculptures params
  | Call_sendItem rt_item

definition newline :: string where
  "newline = [CHR 0x0A]"

definition infoLines :: "Sculpture \<Rightarrow> string list" where
  "infoLines sculpture =
     [''Name: '' @ name sculpture]
     @ (if truthy (year sculpture) then [''Year: '' @ the (year sculpture)] else [])
     @ (if truthy (location sculpture) then [''Location: '' @ the (location sculpture)] else [])
     @ (if truthy (artist sculpture) then [''Artist: '' @ the (artist sculpture)] else [])
     @ (if truthy (description sculpture)
        then [''Description: '' @ the (description sculpture)] else [])
     @ (if truthy (cast_information sculpture)
        then [''Cast Information: '' @ the (cast_information sculpture)] else [])
     @ (if truthy (original_material sculpture)
        then [''Original Material: '' @ the (original_material sculpture)] else [])
     @ (if truthy (dimensions sculpture)
        then [''Dimensions: '' @ the (dimensions sculpture)] else [])"

definition formatSculptureInfo :: "Sculpture list \<Rightarrow> string" where
  "formatSculptureInfo xs =
     join (map (\<lambda>sculpture. join (infoLines sculpture) newline) xs) (newline @ newline)"

text \<open>The two system messages of \<open>enrichWithSculptureData\<close>.\<close>

definition foundMessage :: "Sculpture \<Rightarrow> rt_item" where
  "foundMessage sculpture =
     Message System
       (''I found information about '' @ [CHR 0x22] @ name sculpture @ [CHR 0x22]
        @ '' in our collection. Here are the details:'' @ newline
        @ formatSculptureInfo [sculpture] @ newline @ newline
        @ ''Please provide this information to the user in a friendly, engaging way, ''
        @ ''focusing on the most relevant aspects to their question.'')"

definition relevantMessage :: "Sculpture list \<Rightarrow> rt_item" where
  "relevantMessage results =
     Message System
       (''I found some relevant sculptures in our collection that might interest the user:''
        @ newline @ formatSculptureInfo results @ newline @ newline
        @ ''Please use this information to provide a helpful, engaging response ''
        @ ''focused on the most relevant aspects to their question.'')"

text \<open>
  The second half of \<open>enrichWithSculptureData\<close> (``If no exact matches, try broader
  search''): the calls it issues and the data service afterwards.
\<close>

definition broaderSearch ::
  "files \<Rightarrow> JsonDataService \<Rightarrow> string \<Rightarrow> call list \<times> JsonDataService" where
  "broaderSearch fs svc userMessage =
     (let words = split_ws (toLowerCase userMessage);
          ps = \<lparr>params.name = Some (join words '' ''),
                artist = Some (join words '' ''),
                location = Some (join words '' ''),
                year = Some (join words '' '')\<rparr>;
          (results, svc') = searchSculptures fs svc ps
      in (Call_searchSculptures ps
            # (if length results > 0 then [Call_sendItem (relevantMessage results)] else []),
          svc'))"

definition enrichWithSculptureData ::
  "files \<Rightarrow> JsonDataService option \<Rightarrow> string \<Rightarrow> call list \<times> JsonDataService option" where
  "enrichWithSculptureData fs dataService userMessage =
     (case dataService of
        None \<Rightarrow> ([], None)
      | Some svc \<Rightarrow>
          let potentialNames =
                filter (\<lambda>nm. includes_js (toLowerCase userMessage) (toLowerCase nm))
                  (map name (get_sculptures svc))
          in if length potentialNames > 0 then
               let bestMatch =
                     sort_by (\<lambda>a b. int (length b) - int (length a)) potentialNames ! 0;
                   (sculpture, svc1) = getSculptureByName fs svc bestMatch
               in case sculpture of
                    Some found \<Rightarrow>
                      ([Call_getSculptureByName bestMatch, Call_sendItem (foundMessage found)],
                       Some svc1)
                  | None \<Rightarrow>
                      let (calls, svc2) = broaderSearch fs svc1 userMessage
                      in (Call_getSculptureByName bestMatch # calls, Some svc2)
             else
               let (calls, svc2) = broaderSearch fs svc userMessage
               in (calls, Some svc2))"


fun searchesIssued :: "call list \<Rightarrow> params list" where
  "searchesIssued [] = []"
| "searchesIssued (Call_searchSculptures ps # cs) = ps # searchesIssued cs"
| "searchesIssued (_ # cs) = searchesIssued cs"

subsection \<open>Input audio\<close>

text \<open>Messages for the client socket (\<open>WSMessage\<close>), by their \<open>type\<close> and \<open>action\<close>.\<close>

datatype WSMessage =
    TextDelta string string
  | Transcription string string
  | UserMessage string string
  | SpeechStarted
  | Connected string
  | TextDone string

text \<open>
  An \<open>RTInputAudioItem\<close> of the upstream client, as \<open>handleInputAudio\<close> uses it: its
  \<open>id\<close>, how \<open>waitForCompletion()\<close> ends (the promise resolves, rejects with an error,
  or stays pending), and the \<open>transcription\<close> read after the wait.
\<close>

datatype completion = Resolves | Rejects string | Pending

record RTInputAudioItem =
  item_id :: string
  waitForCompletion :: completion
  transcription :: "string option"

text \<open>
  What the handler does, in order: a frame sent on the socket, or the wait for the
  item's completion. The handler then has returned, has rethrown the error it caught, or
  is still suspended at the \<open>await\<close>. The socket belongs to the \<open>ws\<close> library and a
  \<open>send\<close> on it is taken to succeed.
\<close>

datatype action = Send WSMessage | AwaitCompletion string

datatype outcome = Returned | Thrown string | Suspended

definition handleInputAudio :: "RTInputAudioItem \<Rightarrow> action list \<times> outcome" where
  "handleInputAudio event =
     (case waitForCompletion event of
        Resolves \<Rightarrow>
          ([Send SpeechStarted,
            AwaitCompletion (item_id event),
            Send (Transcription (item_id event)
                    (if truthy (transcription event) then the (transcription event) else []))],
           Returned)
      | Rejects err \<Rightarrow>
          ([Send SpeechStarted, AwaitCompletion (item_id event)], Thrown err)
      | Pending \<Rightarrow>
          ([Send SpeechStarted, AwaitCompletion (item_id event)], Suspended))"

fun transcriptionsSent :: "action list \<Rightarrow> (string \<times> string) list" where
  "transcriptionsSent [] = []"
| "transcriptionsSent (Send (Transcription i t) # as) = (i, t) # transcriptionsSent as"
| "transcriptionsSent (_ # as) = transcriptionsSent as"

section \<open>The dataset data/sculptures.json\<close>

text \<open>
  The records of the repository's dataset, field by field. The six \<open>description\<close> texts
  are long prose, and no search reads them: the document takes them as the parameter
  \<open>prose\<close>, from the title or name to its text, and what is proved of the document
  holds for every such text.
\<close>

definition Tyn :: string where
  "Tyn = ''Tympanum of the northern portal of the Church of Our Lady before T''
         @ [CHR 0xFD] @ ''n''"

definition tympanum :: "(string \<Rightarrow> string) \<Rightarrow> Sculpture" where
  "tympanum prose =
     \<lparr>name = Tyn,
      year = Some ''around 1380'',
      location = Some ''Prague'',
      artist = Some ''unknown'',
      cast_information = Some (''patinated plaster, detail of the right side upper segment ''
        @ ''Devil Fight with an Angel for the Soul of an Evil Thief''),
      original_material = Some ''marlstone, high relief'',
      dimensions = Some ''whole height 232 cm, width 302.5 cm'',
      description = Some (prose Tyn),
      style = None,
      artifacts = None,
      original_information = None\<rparr>"

definition charles :: "(string \<Rightarrow> string) \<Rightarrow> Sculpture" where
  "charles prose =
     \<lparr>name = ''Charles the fourth'',
      year = Some ''between 1375 - 1378'',
      location = Some ''St. Vitus Ironworks'',
      artist = Some ''unknown'',
      cast_information = Some ''epoxy resin, patinated'',
      original_material = Some ''sandstone'',
      dimensions = Some ''58 x 59 cm'',
      description = Some (prose ''Charles the fourth''),
      style = None,
      artifacts = None,
      original_information = None\<rparr>"

definition anna :: "(string \<Rightarrow> string) \<Rightarrow> Sculpture" where
  "anna prose =
     \<lparr>name = ''Anna of Schweidnitz'',
      year = Some ''between 1375 - 1378'',
      location = Some ''St. Vitus Ironworks'',
      artist = Some ''unknown'',
      cast_information = Some ''patinated plaster'',
      original_material = Some ''sandstone'',
      dimensions = Some ''55 x 53 cm'',
      description = Some (prose ''Anna of Schweidnitz''),
      style = None,
      artifacts = None,
      original_information = None\<rparr>"

definition votive :: "(string \<Rightarrow> string) \<Rightarrow> Sculpture" where
  "votive prose =
     \<lparr>name = ''Votive relief from the Basilica of St. George'',
      year = Some ''before 1228'',
      location = Some ''Bohemia'',
      artist = Some ''unknown'',
      cast_information = Some ''patinated plaster'',
      original_material = None,
      dimensions =
        Some ''middle part height 88cm, width 57 cm, wings h. 66 cm, width 27 cm'',
      description = Some (prose ''Votive relief from the Basilica of St. George''),
      style = Some ''Oil on panel'',
      artifacts = None,
      original_information = Some ''gold marlstone, remnants of original polychrome''\<rparr>"

definition sculptures_json :: "(string \<Rightarrow> string) \<Rightarrow> SculptureData" where
  "sculptures_json prose =
     \<lparr>general_information =
        \<lparr>gallery_collection =
           \<lparr>title = ''National Gallery Prague Cast Collection'',
            GeneralInfo.description = prose ''National Gallery Prague Cast Collection''\<rparr>,
         gothic_style =
           \<lparr>title = ''Gothic Sculpture'',
            GeneralInfo.description = prose ''Gothic Sculpture''\<rparr>\<rparr>,
      sculptures = [tympanum prose, charles prose, anna prose, votive prose]\<rparr>"

text \<open>A session's data service once \<open>loadData\<close> has read that document.\<close>

definition loaded :: "(string \<Rightarrow> string) \<Rightarrow> JsonDataService" where
  "loaded prose = \<lparr>data = Some (sculptures_json prose), dataPath = ''data/sculptures.json''\<rparr>"

text \<open>A file system that holds the document at that path and nothing else.\<close>

definition disk :: "(string \<Rightarrow> string) \<Rightarrow> files" where
  "disk prose p = (if p = ''data/sculptures.json'' then Some (sculptures_json prose) else None)"

text \<open>Stand-in prose, for the places where a concrete document is evaluated.\<close>

definition elided :: "string \<Rightarrow> string" where
  "elided t = ''(the text on '' @ t @ '')''"

text \<open>
  Small documents: a record that has a name and no other field, a document made of given
  records, a service that holds a document, and a file system with no file.
\<close>

definition named :: "string \<Rightarrow> Sculpture" where
  "named n =
     \<lparr>name = n, year = None, location = None, artist = None, cast_information = None,
      original_material = None, dimensions = None, description = None, style = None,
      artifacts = None, original_information = None\<rparr>"

definition document :: "Sculpture list \<Rightarrow> SculptureData" where
  "document xs =
     \<lparr>general_information =
        \<lparr>gallery_collection = \<lparr>title = ''Gallery'', GeneralInfo.description = []\<rparr>,
         gothic_style = \<lparr>title = ''Gothic'', GeneralInfo.description = []\<rparr>\<rparr>,
      sculptures = xs\<rparr>"

definition holding :: "SculptureData \<Rightarrow> JsonDataService" where
  "holding d = \<lparr>data = Some d, dataPath = ''data/sculptures.json''\<rparr>"

definition no_files :: files where
  "no_files p = None"

text \<open>The parameter object with no criterion.\<close>

definition no_params :: params where
  "no_params = \<lparr>params.name = None, artist = None, location = None, year = None\<rparr>"

section \<open>The specification's notions\<close>

text \<open>
  A sequence of records ordered by descending name length: no record stands before one
  with a longer name.
\<close>

definition descendingNameLength :: "Sculpture list \<Rightarrow> bool" where
  "descendingNameLength xs =
     sorted_wrt (\<lambda>a b. length (name b) \<le> length (name a)) xs"

text \<open>A value is only white space: it is not empty and each of its characters is white space.\<close>

definition whitespaceOnly :: "string \<Rightarrow> bool" where
  "whitespaceOnly s = (s \<noteq> [] \<and> list_all isWhiteSpace s)"

text \<open>
  The specification's reading of one criterion of \<open>search\<close> against the field of a
  record: a criterion that is absent or empty asks nothing; one that is present passes a
  record that lacks the field, and a record whose lower-cased field contains the
  lower-cased trimmed criterion.
\<close>

definition criterionPasses :: "string option \<Rightarrow> string option \<Rightarrow> bool" where
  "criterionPasses criterion field =
     (case criterion of
        None \<Rightarrow> True
      | Some c \<Rightarrow>
          c = [] \<or>
          (case field of
             None \<Rightarrow> True
           | Some f \<Rightarrow> includes_js (toLowerCase f) (trim (toLowerCase c))))"

text \<open>A criterion that is absent or only white space.\<close>

definition absentOrWhitespace :: "string option \<Rightarrow> bool" where
  "absentOrWhitespace criterion =
     (case criterion of None \<Rightarrow> True | Some c \<Rightarrow> whitespaceOnly c)"

definition passesAll :: "params \<Rightarrow> Sculpture \<Rightarrow> bool" where
  "passesAll ps s =
     (criterionPasses (params.name ps) (Some (name s))
      \<and> criterionPasses (params.artist ps) (artist s)
      \<and> criterionPasses (params.location ps) (location s)
      \<and> criterionPasses (params.year ps) (year s))"

text \<open>
  The same, with an empty field taken as a field the record lacks: the reading the
  code's truthiness tests give.
\<close>

definition criterionPassesOrEmpty :: "string option \<Rightarrow> string option \<Rightarrow> bool" where
  "criterionPassesOrEmpty criterion field =
     (case criterion of
        None \<Rightarrow> True
      | Some c \<Rightarrow>
          c = [] \<or>
          (case field of
             None \<Rightarrow> True
           | Some f \<Rightarrow> f = [] \<or> includes_js (toLowerCase f) (trim (toLowerCase c))))"

definition passesAllOrEmpty :: "params \<Rightarrow> Sculpture \<Rightarrow> bool" where
  "passesAllOrEmpty ps s =
     (criterionPasses (params.name ps) (Some (name s))
      \<and> criterionPassesOrEmpty (params.artist ps) (artist s)
      \<and> criterionPassesOrEmpty (params.location ps) (location s)
      \<and> criterionPassesOrEmpty (params.year ps) (year s))"

text \<open>
  The lower-cased tokens of a message, delimited by white space and rejoined by single
  spaces; and the criteria object that supplies one value as all four criteria.
\<close>

definition rejoined :: "string \<Rightarrow> string" where
  "rejoined userMessage = join (split_ws (toLowerCase userMessage)) '' ''"

definition asAllCriteria :: "string \<Rightarrow> params" where
  "asAllCriteria v =
     \<lparr>params.name = Some v, artist = Some v, location = Some v, year = Some v\<rparr>"



section \<open>Facts about the string operations\<close>

lemma includes_js_sublist: "includes_js s t = sublist t s"
  by (induction s) (auto simp: sublist_Cons_right)

lemma includes_js_Nil [simp]: "includes_js s []"
  by (simp add: includes_js_sublist)


lemma isWhiteSpace_toLowerChar [simp]: "isWhiteSpace (toLowerChar c) = isWhiteSpace c"
  by (auto simp: isWhiteSpace_def toLowerChar_def Let_def)

lemma toLowerChar_idem [simp]: "toLowerChar (toLowerChar c) = toLowerChar c"
  by (auto simp: toLowerChar_def Let_def)

lemma toLowerCase_idem [simp]: "toLowerCase (toLowerCase s) = toLowerCase s"
  by (simp add: toLowerCase_def)

lemma toLowerCase_trimStart: "toLowerCase (trimStart s) = trimStart (toLowerCase s)"
  by (simp add: toLowerCase_def trimStart_def dropWhile_map comp_def)

lemma toLowerCase_trimEnd: "toLowerCase (trimEnd s) = trimEnd (toLowerCase s)"
  by (simp add: toLowerCase_def trimEnd_def dropWhile_map comp_def rev_map)

lemma toLowerCase_trim: "toLowerCase (trim s) = trim (toLowerCase s)"
  by (simp add: trim_def toLowerCase_trimStart toLowerCase_trimEnd)

lemma trimEnd_Nil [simp]: "trimEnd [] = []"
  by (simp add: trimEnd_def)

lemma trimEnd_Cons:
  "trimEnd (c # cs) = (if trimEnd cs = [] \<and> isWhiteSpace c then [] else c # trimEnd cs)"
  by (auto simp: trimEnd_def dropWhile_append)

lemma trimEnd_eq_Nil: "trimEnd s = [] \<longleftrightarrow> (\<forall>c\<in>set s. isWhiteSpace c)"
  by (induction s) (auto simp: trimEnd_Cons)

lemma trimStart_eq_Nil: "trimStart s = [] \<longleftrightarrow> (\<forall>c\<in>set s. isWhiteSpace c)"
  by (simp add: trimStart_def dropWhile_eq_Nil_conv)

lemma trimEnd_trimStart: "trimEnd (trimStart s) = trimStart (trimEnd s)"
proof (induction s)
  case Nil
  show ?case by (simp add: trimStart_def)
next
  case (Cons c cs)
  show ?case
  proof (cases "isWhiteSpace c")
    case True
    have "trimEnd (trimStart (c # cs)) = trimStart (trimEnd cs)"
      using True Cons.IH by (simp add: trimStart_def)
    moreover have "trimStart (trimEnd (c # cs)) = trimStart (trimEnd cs)"
      using True by (simp add: trimEnd_Cons trimStart_def)
    ultimately show ?thesis by simp
  next
    case False
    then show ?thesis by (simp add: trimEnd_Cons trimStart_def)
  qed
qed

lemma trimStart_ws_append:
  "\<forall>c\<in>set w. isWhiteSpace c \<Longrightarrow> trimStart (w @ s) = trimStart s"
  by (induction w) (simp_all add: trimStart_def)

lemma trimEnd_append_ws:
  "\<forall>c\<in>set w. isWhiteSpace c \<Longrightarrow> trimEnd (s @ w) = trimEnd s"
proof -
  assume w: "\<forall>c\<in>set w. isWhiteSpace c"
  have "dropWhile isWhiteSpace (rev w @ rev s) = dropWhile isWhiteSpace (rev s)"
    using w by (induction w rule: rev_induct) simp_all
  then show ?thesis by (simp add: trimEnd_def)
qed

lemma collapseSpace_eq_Nil [simp]: "collapseSpace s = [] \<longleftrightarrow> s = []"
  by (cases s) auto

lemma trimStart_collapseSpace: "trimStart (collapseSpace s) = collapseSpace (trimStart s)"
proof (induction s rule: collapseSpace.induct)
  case 1
  show ?case by (simp add: trimStart_def)
next
  case (2 c cs)
  show ?case
  proof (cases "isWhiteSpace c")
    case True
    have ws: "isWhiteSpace (CHR '' '')" by (simp add: isWhiteSpace_def)
    have "trimStart (collapseSpace (c # cs)) = trimStart (collapseSpace (dropWhile isWhiteSpace cs))"
      using True ws by (simp add: trimStart_def)
    also have "\<dots> = collapseSpace (trimStart (dropWhile isWhiteSpace cs))"
      using 2(1)[OF True] .
    also have "\<dots> = collapseSpace (trimStart (c # cs))"
      using True by (simp add: trimStart_def)
    finally show ?thesis .
  next
    case False
    then show ?thesis by (simp add: trimStart_def)
  qed
qed

lemma trimStart_trimEnd_eq_Nil: "trimStart (trimEnd s) = [] \<longleftrightarrow> trimEnd s = []"
proof
  assume "trimStart (trimEnd s) = []"
  then have "trimEnd (trimStart s) = []" by (simp add: trimEnd_trimStart)
  then have all: "\<forall>c\<in>set (dropWhile isWhiteSpace s). isWhiteSpace c"
    by (simp add: trimEnd_eq_Nil trimStart_def)
  have "dropWhile isWhiteSpace s = []"
  proof (rule ccontr)
    assume ne: "dropWhile isWhiteSpace s \<noteq> []"
    then have "\<not> isWhiteSpace (hd (dropWhile isWhiteSpace s))" by (rule hd_dropWhile)
    moreover have "hd (dropWhile isWhiteSpace s) \<in> set (dropWhile isWhiteSpace s)"
      using ne by (rule hd_in_set)
    ultimately show False using all by blast
  qed
  then have "\<forall>c\<in>set s. isWhiteSpace c" by (simp add: dropWhile_eq_Nil_conv)
  then show "trimEnd s = []" by (simp add: trimEnd_eq_Nil)
next
  assume "trimEnd s = []"
  then show "trimStart (trimEnd s) = []" by (simp add: trimStart_def)
qed

lemma trimEnd_collapseSpace: "trimEnd (collapseSpace s) = collapseSpace (trimEnd s)"
proof (induction s rule: collapseSpace.induct)
  case 1
  show ?case by simp
next
  case (2 c cs)
  show ?case
  proof (cases "isWhiteSpace c")
    case True
    have ws: "isWhiteSpace (CHR '' '')" by (simp add: isWhiteSpace_def)
    let ?d = "dropWhile isWhiteSpace cs"
    have ih: "trimEnd (collapseSpace ?d) = collapseSpace (trimEnd ?d)"
      using 2(1)[OF True] .
    have comm: "trimEnd ?d = dropWhile isWhiteSpace (trimEnd cs)"
      using trimEnd_trimStart[of cs] by (simp add: trimStart_def)
    show ?thesis
    proof (cases "trimEnd cs = []")
      case True2: True
      then have "trimEnd ?d = []" using comm by simp
      then show ?thesis using True True2 ih ws by (simp add: trimEnd_Cons)
    next
      case False
      then have "dropWhile isWhiteSpace (trimEnd cs) \<noteq> []"
        using trimStart_trimEnd_eq_Nil[of cs] by (simp add: trimStart_def)
      then show ?thesis using True False ih comm by (simp add: trimEnd_Cons)
    qed
  next
    case False
    then show ?thesis using 2(2) by (simp add: trimEnd_Cons)
  qed
qed

lemma trim_collapseSpace: "trim (collapseSpace s) = collapseSpace (trim s)"
  by (simp add: trim_def trimStart_collapseSpace trimEnd_collapseSpace)

lemma trim_ws_append_ws:
  assumes "\<forall>c\<in>set w1. isWhiteSpace c" "\<forall>c\<in>set w2. isWhiteSpace c"
  shows "trim (w1 @ s @ w2) = trim s"
proof -
  have "trim (w1 @ s @ w2) = trimEnd (trimStart (s @ w2))"
    using assms(1) by (simp add: trim_def trimStart_ws_append)
  also have "\<dots> = trimStart (trimEnd (s @ w2))" by (rule trimEnd_trimStart)
  also have "\<dots> = trimStart (trimEnd s)" using assms(2) by (simp add: trimEnd_append_ws)
  also have "\<dots> = trim s" by (simp add: trim_def trimEnd_trimStart)
  finally show ?thesis .
qed

lemma trim_decomp:
  "\<exists>w1 w2. s = w1 @ trim s @ w2 \<and> (\<forall>c\<in>set w1. isWhiteSpace c) \<and> (\<forall>c\<in>set w2. isWhiteSpace c)"
proof -
  let ?t = "trimStart s"
  have a: "s = takeWhile isWhiteSpace s @ ?t" by (simp add: trimStart_def)
  have "rev (takeWhile isWhiteSpace (rev ?t) @ dropWhile isWhiteSpace (rev ?t))
      = rev (dropWhile isWhiteSpace (rev ?t)) @ rev (takeWhile isWhiteSpace (rev ?t))"
    by (rule rev_append)
  then have b: "?t = trimEnd ?t @ rev (takeWhile isWhiteSpace (rev ?t))"
    by (simp only: takeWhile_dropWhile_id rev_rev_ident trimEnd_def)
  have "s = takeWhile isWhiteSpace s @ trim s @ rev (takeWhile isWhiteSpace (rev ?t))"
    using a b by (simp add: trim_def)
  moreover have "\<forall>c\<in>set (takeWhile isWhiteSpace s). isWhiteSpace c"
    by (auto dest: set_takeWhileD)
  moreover have "\<forall>c\<in>set (rev (takeWhile isWhiteSpace (rev ?t))). isWhiteSpace c"
    by (auto dest: set_takeWhileD)
  ultimately show ?thesis by blast
qed

lemma removeSpecial_ws: "\<forall>c\<in>set w. isWhiteSpace c \<Longrightarrow> removeSpecial w = w"
  by (simp add: removeSpecial_def)

lemma trim_removeSpecial_trim: "trim (removeSpecial (trim s)) = trim (removeSpecial s)"
proof -
  obtain w1 w2 where s: "s = w1 @ trim s @ w2"
    and w1: "\<forall>c\<in>set w1. isWhiteSpace c" and w2: "\<forall>c\<in>set w2. isWhiteSpace c"
    using trim_decomp by blast
  have "removeSpecial s = removeSpecial w1 @ removeSpecial (trim s) @ removeSpecial w2"
    by (subst s) (simp add: removeSpecial_def)
  then have "removeSpecial s = w1 @ removeSpecial (trim s) @ w2"
    using w1 w2 by (simp add: removeSpecial_ws)
  then show ?thesis using trim_ws_append_ws[OF w1 w2] by simp
qed

lemma normalizeName_trim_toLowerCase:
  "normalizeName (trim (toLowerCase q)) = normalizeName q"
proof -
  have "normalizeName (trim (toLowerCase q))
      = collapseSpace (trim (removeSpecial (trim (toLowerCase q))))"
    by (simp add: normalizeName_def toLowerCase_trim trim_collapseSpace)
  also have "\<dots> = collapseSpace (trim (removeSpecial (toLowerCase q)))"
    by (simp add: trim_removeSpecial_trim)
  also have "\<dots> = normalizeName q"
    by (simp add: normalizeName_def trim_collapseSpace)
  finally show ?thesis .
qed

section \<open>Facts about the sort\<close>

lemma insert_by_length:
  "insert_by (\<lambda>a b. int (f b) - int (f a)) x ys = insort_key (\<lambda>x. - int (f x)) x ys"
  by (induction ys) auto

lemma sort_by_length:
  "sort_by (\<lambda>a b. int (f b) - int (f a)) xs = sort_key (\<lambda>x. - int (f x)) xs"
  by (induction xs) (simp_all add: sort_by_def sort_key_def insert_by_length)

lemma mset_sort_by_length [simp]:
  "mset (sort_by (\<lambda>a b. int (f b) - int (f a)) xs) = mset xs"
  by (simp add: sort_by_length)

lemma set_sort_by_length [simp]:
  "set (sort_by (\<lambda>a b. int (f b) - int (f a)) xs) = set xs"
  by (simp add: sort_by_length)

lemma sorted_sort_by_length:
  "sorted_wrt (\<lambda>a b. f b \<le> f a) (sort_by (\<lambda>a b. int (f b) - int (f a)) xs)"
proof -
  have "sorted (map (\<lambda>x. - int (f x)) (sort_key (\<lambda>x. - int (f x)) xs))"
    by (rule sorted_sort_key)
  then show ?thesis by (simp add: sort_by_length sorted_map)
qed

lemma stable_sort_by_length:
  "filter (\<lambda>y. f y = k) (sort_by (\<lambda>a b. int (f b) - int (f a)) xs) = filter (\<lambda>y. f y = k) xs"
proof -
  have "filter (\<lambda>y. - int (f y) = - int k) (sort_key (\<lambda>x. - int (f x)) xs)
      = filter (\<lambda>y. - int (f y) = - int k) xs"
    by (rule sort_key_stable)
  then show ?thesis by (simp add: sort_by_length)
qed

lemma sort_by_length_eq_Nil [simp]:
  "sort_by (\<lambda>a b. int (f b) - int (f a)) xs = [] \<longleftrightarrow> xs = []"
  by (metis mset_sort_by_length mset_zero_iff)

lemma hd_sort_by_length:
  assumes "xs \<noteq> []"
  shows "hd (sort_by (\<lambda>a b. int (f b) - int (f a)) xs) \<in> set xs
       \<and> (\<forall>y\<in>set xs. f y \<le> f (hd (sort_by (\<lambda>a b. int (f b) - int (f a)) xs)))"
proof -
  let ?r = "sort_by (\<lambda>a b. int (f b) - int (f a)) xs"
  have ne: "?r \<noteq> []" using assms by simp
  then obtain h t where r: "?r = h # t" by (cases ?r) auto
  have "sorted_wrt (\<lambda>a b. f b \<le> f a) (h # t)" using sorted_sort_by_length[of f xs] r by simp
  then have "\<forall>y\<in>set t. f y \<le> f h" by simp
  moreover have "set xs = insert h (set t)" using set_sort_by_length[of f xs] r by simp
  ultimately show ?thesis using r by auto
qed

section \<open>The data service\<close>


lemma ensureLoaded_fail:
  "data svc = None \<Longrightarrow> fs (dataPath svc) = None \<Longrightarrow> ensureLoaded fs svc = svc"
  by (simp add: ensureLoaded_def loadData_def)

text \<open>
  C3. When the four criteria \<open>name\<close>, \<open>artist\<close>, \<open>location\<close> and \<open>year\<close> are all absent
  or empty, \<open>searchSculptures\<close> returns the empty sequence, whatever the dataset.
\<close>

theorem searchSculptures_no_criteria:
  assumes "\<not> truthy (params.name ps)" and "\<not> truthy (params.artist ps)"
    and "\<not> truthy (params.location ps)" and "\<not> truthy (params.year ps)"
  shows "fst (searchSculptures fs svc ps) = []"
  using assms by (simp add: searchSculptures_def Let_def split: option.splits)

theorem searchSculptures_no_criteria_witness:
  "fst (searchSculptures (disk elided) (loaded elided) no_params) = []
   \<and> fst (searchSculptures (disk elided) (loaded elided) (no_params\<lparr>params.name := Some []\<rparr>)) = []
   \<and> sculptures (sculptures_json elided) \<noteq> []"
proof -
  have "fst (searchSculptures (disk elided) (loaded elided) no_params) = []"
    by (rule searchSculptures_no_criteria) (simp_all add: no_params_def)
  moreover have "fst (searchSculptures (disk elided) (loaded elided)
      (no_params\<lparr>params.name := Some []\<rparr>)) = []"
    by (rule searchSculptures_no_criteria) (simp_all add: no_params_def)
  ultimately show ?thesis by (simp add: sculptures_json_def)
qed

text \<open>
  C6. When the dataset file is absent or does not parse, \<open>loadData\<close> answers \<open>false\<close>
  and the data of a store that had none (a new store has none) stays \<open>null\<close>; no accessor
  throws: \<open>findSculptureByName\<close> and \<open>searchSculptures\<close> return the empty sequence, and
  \<open>getSculptureByName\<close>, \<open>getGalleryInfo\<close> and \<open>getGothicStyleInfo\<close> return \<open>null\<close>,
  each leaving the store as it was.
\<close>

theorem accessors_without_data:
  assumes "fs (dataPath svc) = None" and "data svc = None"
  shows "loadData fs svc = (False, svc)
       \<and> findSculptureByName fs svc q = ([], svc)
       \<and> searchSculptures fs svc ps = ([], svc)
       \<and> getSculptureByName fs svc q = (None, svc)
       \<and> getGalleryInfo fs svc = (None, svc)
       \<and> getGothicStyleInfo fs svc = (None, svc)
       \<and> data (new_JsonDataService p) = None
       \<and> dataPath (new_JsonDataService p) = p"
proof -
  have e: "ensureLoaded fs svc = svc"
    using assms by (simp add: ensureLoaded_fail)
  have "loadData fs svc = (False, svc)" using assms(1) by (simp add: loadData_def)
  moreover have f: "findSculptureByName fs svc q = ([], svc)"
    using assms(2) e by (simp add: findSculptureByName_def)
  moreover have "searchSculptures fs svc ps = ([], svc)"
    using assms(2) e by (simp add: searchSculptures_def)
  moreover have "getSculptureByName fs svc q = (None, svc)"
    using f by (simp add: getSculptureByName_def)
  moreover have "getGalleryInfo fs svc = (None, svc)"
    using assms(2) e by (simp add: getGalleryInfo_def)
  moreover have "getGothicStyleInfo fs svc = (None, svc)"
    using assms(2) e by (simp add: getGothicStyleInfo_def)
  ultimately show ?thesis by (simp add: new_JsonDataService_def)
qed

theorem accessors_without_data_witness:
  "loadData no_files (new_JsonDataService ''data/sculptures.json'')
     = (False, new_JsonDataService ''data/sculptures.json'')
   \<and> findSculptureByName no_files (new_JsonDataService ''data/sculptures.json'')
       ''Charles the fourth''
     = ([], new_JsonDataService ''data/sculptures.json'')
   \<and> getSculptureByName (disk elided) (new_JsonDataService ''missing.json'')
       ''Charles the fourth''
     = (None, new_JsonDataService ''missing.json'')"
proof -
  have a: "no_files (dataPath (new_JsonDataService ''data/sculptures.json'')) = None"
    by (simp add: no_files_def)
  have b: "disk elided (dataPath (new_JsonDataService ''missing.json'')) = None"
    by (simp add: disk_def new_JsonDataService_def)
  have n: "data (new_JsonDataService p) = None" for p
    by (simp add: new_JsonDataService_def)
  show ?thesis
    using
      accessors_without_data[where fs = no_files
        and svc = "new_JsonDataService ''data/sculptures.json''"
        and q = "''Charles the fourth''" and ps = no_params, OF a n]
      accessors_without_data[where fs = "disk elided"
        and svc = "new_JsonDataService ''missing.json''"
        and q = "''Charles the fourth''" and ps = no_params, OF b n]
    by simp
qed

section \<open>Search by criteria\<close>

lemma trim_whitespace:
  assumes "list_all isWhiteSpace s"
  shows "trim (toLowerCase s) = []"
proof -
  have "\<forall>c\<in>set (toLowerCase s). isWhiteSpace c"
    using assms by (auto simp: toLowerCase_def list_all_iff)
  then have "trimStart (toLowerCase s) = []" by (simp add: trimStart_eq_Nil)
  then show ?thesis by (simp add: trim_def)
qed

lemma matchesParams_criteria: "matchesParams ps s = passesAllOrEmpty ps s"
proof -
  have n: "(truthy (params.name ps)
        \<and> \<not> includes_js (toLowerCase (name s)) (trim (toLowerCase (the (params.name ps)))))
      = (\<not> criterionPasses (params.name ps) (Some (name s)))"
    by (cases "params.name ps") (auto simp: criterionPasses_def)
  have f: "\<And>c fld. (truthy c \<and> truthy fld
        \<and> \<not> includes_js (toLowerCase (the fld)) (trim (toLowerCase (the c))))
      = (\<not> criterionPassesOrEmpty c fld)"
    subgoal for c fld
      by (cases c; cases fld) (auto simp: criterionPassesOrEmpty_def)
    done
  show ?thesis
    unfolding matchesParams_def passesAllOrEmpty_def n f by auto
qed

lemma searchSculptures_loaded:
  assumes "data (ensureLoaded fs svc) = Some d"
    and "truthy (params.name ps) \<or> truthy (params.artist ps)
       \<or> truthy (params.location ps) \<or> truthy (params.year ps)"
  shows "fst (searchSculptures fs svc ps) = filter (matchesParams ps) (sculptures d)"
  using assms by (auto simp: searchSculptures_def Let_def)

text \<open>
  C2, as amended. When at least one criterion is present (supplied and not empty),
  \<open>searchSculptures\<close> returns exactly the records, in the order of the dataset, that pass
  every present criterion: the record's lower-cased name contains the lower-cased trimmed
  \<open>name\<close> criterion, and for \<open>artist\<close>, \<open>location\<close> and \<open>year\<close> the record lacks the
  field, or holds the empty string there, or its lower-cased field contains the
  lower-cased trimmed criterion.
\<close>

theorem searchSculptures_criteria:
  assumes "data (ensureLoaded fs svc) = Some d"
    and "truthy (params.name ps) \<or> truthy (params.artist ps)
       \<or> truthy (params.location ps) \<or> truthy (params.year ps)"
  shows "fst (searchSculptures fs svc ps) = filter (passesAllOrEmpty ps) (sculptures d)"
proof -
  have "matchesParams ps = passesAllOrEmpty ps"
    by (rule ext) (rule matchesParams_criteria)
  then show ?thesis using searchSculptures_loaded[OF assms] by simp
qed

theorem searchSculptures_criteria_witness:
  "fst (searchSculptures no_files (loaded elided) (no_params\<lparr>params.name := Some ''PRAGUE ''\<rparr>)) = []
   \<and> fst (searchSculptures no_files (loaded elided) (no_params\<lparr>params.year := Some '' 1375''\<rparr>))
       = [charles elided, anna elided]"
proof -
  have d: "data (ensureLoaded no_files (loaded elided)) = Some (sculptures_json elided)"
    by (simp add: ensureLoaded_def loaded_def)
  have t1: "truthy (params.name (no_params\<lparr>params.name := Some ''PRAGUE ''\<rparr>))
     \<or> truthy (params.artist (no_params\<lparr>params.name := Some ''PRAGUE ''\<rparr>))
     \<or> truthy (params.location (no_params\<lparr>params.name := Some ''PRAGUE ''\<rparr>))
     \<or> truthy (params.year (no_params\<lparr>params.name := Some ''PRAGUE ''\<rparr>))"
    by simp
  have t2: "truthy (params.name (no_params\<lparr>params.year := Some '' 1375''\<rparr>))
     \<or> truthy (params.artist (no_params\<lparr>params.year := Some '' 1375''\<rparr>))
     \<or> truthy (params.location (no_params\<lparr>params.year := Some '' 1375''\<rparr>))
     \<or> truthy (params.year (no_params\<lparr>params.year := Some '' 1375''\<rparr>))"
    by simp
  have e1: "filter (passesAllOrEmpty (no_params\<lparr>params.name := Some ''PRAGUE ''\<rparr>))
      (sculptures (sculptures_json elided)) = []"
    by code_simp
  have e2: "filter (passesAllOrEmpty (no_params\<lparr>params.year := Some '' 1375''\<rparr>))
      (sculptures (sculptures_json elided)) = [charles elided, anna elided]"
    by code_simp
  show ?thesis
    using searchSculptures_criteria[OF d t1] searchSculptures_criteria[OF d t2] e1 e2
    by simp
qed

text \<open>
  C2, as stated, lets a record pass only when it lacks the field or the field contains
  the criterion (\<^const>\<open>passesAll\<close>). A record whose \<open>artist\<close> is the empty string has the
  field, and the field does not contain \<open>rodin\<close>; the code returns the record.
\<close>

theorem searchSculptures_empty_field_counterexample:
  "fst (searchSculptures no_files
          (holding (document [(named ''Anna'')\<lparr>artist := Some []\<rparr>]))
          (no_params\<lparr>params.artist := Some ''rodin''\<rparr>))
     = [(named ''Anna'')\<lparr>artist := Some []\<rparr>]
   \<and> filter (passesAll (no_params\<lparr>params.artist := Some ''rodin''\<rparr>))
        (sculptures (document [(named ''Anna'')\<lparr>artist := Some []\<rparr>])) = []"
  by code_simp

lemma criterionPassesOrEmpty_whitespace:
  "absentOrWhitespace c \<Longrightarrow> criterionPassesOrEmpty c fld"
  by (auto simp: absentOrWhitespace_def criterionPassesOrEmpty_def whitespaceOnly_def
      trim_whitespace split: option.splits)

lemma criterionPasses_whitespace:
  "absentOrWhitespace c \<Longrightarrow> criterionPasses c fld"
  by (auto simp: absentOrWhitespace_def criterionPasses_def whitespaceOnly_def
      trim_whitespace split: option.splits)

lemma truthy_whitespace: "absentOrWhitespace c \<Longrightarrow> c \<noteq> None \<Longrightarrow> truthy c"
  by (cases c) (auto simp: absentOrWhitespace_def whitespaceOnly_def)

text \<open>
  C9. A criterion that is only white space counts as present for the guard of
  \<open>searchSculptures\<close>, and trimmed it is the empty string, which every field contains:
  when each criterion is absent or only white space and at least one is supplied, the
  search returns the entire loaded dataset.
\<close>

theorem searchSculptures_whitespace_criteria:
  assumes "data (ensureLoaded fs svc) = Some d"
    and "absentOrWhitespace (params.name ps)" and "absentOrWhitespace (params.artist ps)"
    and "absentOrWhitespace (params.location ps)" and "absentOrWhitespace (params.year ps)"
    and "params.name ps \<noteq> None \<or> params.artist ps \<noteq> None
       \<or> params.location ps \<noteq> None \<or> params.year ps \<noteq> None"
  shows "(truthy (params.name ps) \<or> truthy (params.artist ps)
          \<or> truthy (params.location ps) \<or> truthy (params.year ps))
       \<and> fst (searchSculptures fs svc ps) = sculptures d"
proof -
  have present: "truthy (params.name ps) \<or> truthy (params.artist ps)
      \<or> truthy (params.location ps) \<or> truthy (params.year ps)"
    using assms(2-6) by (auto dest: truthy_whitespace)
  have "passesAllOrEmpty ps s" for s
    using assms(2-5)
    by (simp add: passesAllOrEmpty_def criterionPasses_whitespace
        criterionPassesOrEmpty_whitespace)
  then have "filter (matchesParams ps) (sculptures d) = sculptures d"
    by (simp add: matchesParams_criteria)
  then show ?thesis
    using present searchSculptures_loaded[OF assms(1) present] by simp
qed

theorem searchSculptures_whitespace_criteria_witness:
  "fst (searchSculptures no_files (loaded elided) (no_params\<lparr>params.name := Some '' ''\<rparr>))
     = [tympanum elided, charles elided, anna elided, votive elided]"
proof -
  let ?ps = "no_params\<lparr>params.name := Some '' ''\<rparr>"
  have d: "data (ensureLoaded no_files (loaded elided)) = Some (sculptures_json elided)"
    by (simp add: ensureLoaded_def loaded_def)
  have ws: "whitespaceOnly '' ''" by (simp add: whitespaceOnly_def isWhiteSpace_def)
  have a: "absentOrWhitespace (params.name ?ps)" "absentOrWhitespace (params.artist ?ps)"
    "absentOrWhitespace (params.location ?ps)" "absentOrWhitespace (params.year ?ps)"
    using ws by (simp_all add: absentOrWhitespace_def no_params_def)
  have p: "params.name ?ps \<noteq> None \<or> params.artist ?ps \<noteq> None
       \<or> params.location ?ps \<noteq> None \<or> params.year ?ps \<noteq> None"
    by simp
  show ?thesis
    using searchSculptures_whitespace_criteria[OF d a p] by (simp add: sculptures_json_def)
qed

section \<open>Facts about data/sculptures.json\<close>

lemma sculptures_of_json:
  "sculptures (sculptures_json P) = [tympanum P, charles P, anna P, votive P]"
  by (simp add: sculptures_json_def)

lemma name_tympanum: "name (tympanum P) = Tyn" by (simp add: tympanum_def)
lemma name_charles: "name (charles P) = ''Charles the fourth''" by (simp add: charles_def)
lemma name_anna: "name (anna P) = ''Anna of Schweidnitz''" by (simp add: anna_def)
lemma name_votive: "name (votive P) = ''Votive relief from the Basilica of St. George''"
  by (simp add: votive_def)

lemmas names = name_tympanum name_charles name_anna name_votive

lemma lower_names:
  "toLowerCase Tyn = ''tympanum of the northern portal of the church of our lady before t''
     @ [CHR 0xFD] @ ''n''"
  "toLowerCase ''Charles the fourth'' = ''charles the fourth''"
  "toLowerCase ''Anna of Schweidnitz'' = ''anna of schweidnitz''"
  "toLowerCase ''Votive relief from the Basilica of St. George''
     = ''votive relief from the basilica of st. george''"
  by code_simp+

lemma normalized_names:
  "normalizeName Tyn = ''tympanum of the northern portal of the church of our lady before tn''"
  "normalizeName ''Charles the fourth'' = ''charles the fourth''"
  "normalizeName ''Anna of Schweidnitz'' = ''anna of schweidnitz''"
  "normalizeName ''Votive relief from the Basilica of St. George''
     = ''votive relief from the basilica of st george''"
  by code_simp+

lemma name_lengths:
  "length Tyn = 68" "length ''Charles the fourth'' = 18" "length ''Anna of Schweidnitz'' = 19"
  "length ''Votive relief from the Basilica of St. George'' = 45"
  by (simp_all add: Tyn_def)

lemma loaded_data: "data (ensureLoaded fs (loaded P)) = Some (sculptures_json P)"
  by (simp add: ensureLoaded_def loaded_def)

section \<open>Lookup by name\<close>

lemma findSculptureByName_unfold:
  assumes "data (ensureLoaded fs svc) = Some d"
  shows "fst (findSculptureByName fs svc q) =
    (if filter (\<lambda>s. toLowerCase (name s) = trim (toLowerCase q)) (sculptures d) \<noteq> []
     then filter (\<lambda>s. toLowerCase (name s) = trim (toLowerCase q)) (sculptures d)
     else if filter (\<lambda>s. normalizeName (name s) = normalizeName q) (sculptures d) \<noteq> []
     then filter (\<lambda>s. normalizeName (name s) = normalizeName q) (sculptures d)
     else sort_by (\<lambda>a b. int (length (name b)) - int (length (name a)))
            (filter (\<lambda>s. includes_js (toLowerCase (name s)) (trim (toLowerCase q)))
               (sculptures d)))"
  using assms
  by (simp add: findSculptureByName_def Let_def normalizeName_trim_toLowerCase)

lemma descending_sort_by:
  "descendingNameLength (sort_by (\<lambda>a b. int (length (name b)) - int (length (name a))) xs)"
  unfolding descendingNameLength_def
  by (rule sorted_sort_by_length[of "\<lambda>s. length (name s)"])

lemma stable_sort_by_name:
  "filter (\<lambda>s. length (name s) = k)
     (sort_by (\<lambda>a b. int (length (name b)) - int (length (name a))) xs)
   = filter (\<lambda>s. length (name s) = k) xs"
  by (rule stable_sort_by_length[of "\<lambda>s. length (name s)"])

text \<open>
  C1. For every query, \<open>findSculptureByName\<close> returns the first non-empty of three tiers:
  (1) the records whose lower-cased name is the lower-cased trimmed query; (2) the records
  whose normalized name is the normalized query; (3) the records whose lower-cased name
  contains the lower-cased trimmed query, ordered by descending name length (records
  with names of one length keep the order of the dataset).
\<close>

theorem findSculptureByName_tiers:
  assumes "data (ensureLoaded fs svc) = Some d"
    and "tier1 = filter (\<lambda>s. toLowerCase (name s) = trim (toLowerCase q)) (sculptures d)"
    and "tier2 = filter (\<lambda>s. normalizeName (name s) = normalizeName q) (sculptures d)"
    and "tier3 = filter (\<lambda>s. includes_js (toLowerCase (name s)) (trim (toLowerCase q)))
                   (sculptures d)"
    and "r = fst (findSculptureByName fs svc q)"
  shows "(tier1 \<noteq> [] \<longrightarrow> r = tier1)
       \<and> (tier1 = [] \<and> tier2 \<noteq> [] \<longrightarrow> r = tier2)
       \<and> (tier1 = [] \<and> tier2 = [] \<longrightarrow>
            mset r = mset tier3 \<and> descendingNameLength r
            \<and> (\<forall>k. filter (\<lambda>s. length (name s) = k) r
                    = filter (\<lambda>s. length (name s) = k) tier3))"
proof -
  have r: "r = (if tier1 \<noteq> [] then tier1 else if tier2 \<noteq> [] then tier2
      else sort_by (\<lambda>a b. int (length (name b)) - int (length (name a))) tier3)"
    unfolding assms(2-5) by (rule findSculptureByName_unfold[OF assms(1)])
  show ?thesis
    using r by (simp add: descending_sort_by stable_sort_by_name)
qed


theorem findSculptureByName_tiers_witness:
  "fst (findSculptureByName no_files (loaded elided) ''  CHARLES the Fourth '') = [charles elided]
   \<and> fst (findSculptureByName no_files (loaded elided) ''Charles, the   fourth!'') = [charles elided]
   \<and> mset (fst (findSculptureByName no_files (loaded elided) ''of''))
       = mset [tympanum elided, anna elided, votive elided]
   \<and> descendingNameLength (fst (findSculptureByName no_files (loaded elided) ''of''))"
proof -
  note tiers = findSculptureByName_tiers[OF loaded_data[of no_files elided] refl refl refl refl]
  note docs = sculptures_of_json names lower_names normalized_names
  have q1: "trim (toLowerCase ''  CHARLES the Fourth '') = ''charles the fourth''"
    by code_simp
  have q2: "trim (toLowerCase ''Charles, the   fourth!'') = ''charles, the   fourth!''"
    "normalizeName ''Charles, the   fourth!'' = ''charles the fourth''"
    by code_simp+
  have q3: "trim (toLowerCase ''of'') = ''of''" "normalizeName ''of'' = ''of''"
    by code_simp+
  have a: "filter (\<lambda>s. toLowerCase (name s) = trim (toLowerCase ''  CHARLES the Fourth ''))
      (sculptures (sculptures_json elided)) = [charles elided]"
    by (simp add: docs q1)
  have b1: "filter (\<lambda>s. toLowerCase (name s) = trim (toLowerCase ''Charles, the   fourth!''))
      (sculptures (sculptures_json elided)) = []"
    by (simp add: docs q2)
  have b2: "filter (\<lambda>s. normalizeName (name s) = normalizeName ''Charles, the   fourth!'')
      (sculptures (sculptures_json elided)) = [charles elided]"
    by (simp add: docs q2)
  have c1: "filter (\<lambda>s. toLowerCase (name s) = trim (toLowerCase ''of''))
      (sculptures (sculptures_json elided)) = []"
    by (simp add: docs q3)
  have c2: "filter (\<lambda>s. normalizeName (name s) = normalizeName ''of'')
      (sculptures (sculptures_json elided)) = []"
    by (simp add: docs q3)
  have c3: "filter (\<lambda>s. includes_js (toLowerCase (name s)) (trim (toLowerCase ''of'')))
      (sculptures (sculptures_json elided)) = [tympanum elided, anna elided, votive elided]"
    by (simp add: docs q3)
  have "fst (findSculptureByName no_files (loaded elided) ''  CHARLES the Fourth '')
      = [charles elided]"
    using tiers[where q = "''  CHARLES the Fourth ''"] a by simp
  moreover have "fst (findSculptureByName no_files (loaded elided) ''Charles, the   fourth!'')
      = [charles elided]"
    using tiers[where q = "''Charles, the   fourth!''"] b1 b2 by simp
  moreover have "mset (fst (findSculptureByName no_files (loaded elided) ''of''))
      = mset [tympanum elided, anna elided, votive elided]
    \<and> descendingNameLength (fst (findSculptureByName no_files (loaded elided) ''of''))"
    using tiers[where q = "''of''"] c1 c2 c3 by simp
  ultimately show ?thesis by simp
qed

lemma normalizeName_Nil [simp]: "normalizeName [] = []"
  by (simp add: normalizeName_def toLowerCase_def removeSpecial_def trim_def trimStart_def)

lemma normalizeName_whitespace:
  assumes "list_all isWhiteSpace q"
  shows "normalizeName q = []"
proof -
  have "normalizeName q = normalizeName (trim (toLowerCase q))"
    by (simp add: normalizeName_trim_toLowerCase)
  then show ?thesis using assms by (simp add: trim_whitespace)
qed

lemma getSculptureByName_hd:
  "fst (getSculptureByName fs svc q) =
     (if fst (findSculptureByName fs svc q) = [] then None
      else Some (hd (fst (findSculptureByName fs svc q))))"
  by (cases "findSculptureByName fs svc q")
    (auto simp: getSculptureByName_def hd_conv_nth)

text \<open>
  C8, as amended. For a query that is empty or only white space, on a loaded dataset
  where no name normalizes to the empty string, \<open>findSculptureByName\<close> returns the
  entire list of records ordered by descending name length; so when the dataset is not
  empty \<open>getSculptureByName\<close> returns a record with a longest name, not \<open>null\<close>.
\<close>

theorem findSculptureByName_blank_query:
  assumes "data (ensureLoaded fs svc) = Some d"
    and "list_all isWhiteSpace q"
    and "\<forall>s\<in>set (sculptures d). normalizeName (name s) \<noteq> []"
    and "r = fst (findSculptureByName fs svc q)"
  shows "mset r = mset (sculptures d) \<and> descendingNameLength r
       \<and> (\<forall>k. filter (\<lambda>s. length (name s) = k) r
               = filter (\<lambda>s. length (name s) = k) (sculptures d))
       \<and> (sculptures d \<noteq> [] \<longrightarrow>
            (\<exists>s. fst (getSculptureByName fs svc q) = Some s \<and> s \<in> set (sculptures d)
                 \<and> (\<forall>t\<in>set (sculptures d). length (name t) \<le> length (name s))))"
proof -
  let ?cmp = "\<lambda>a b. int (length (name b)) - int (length (name a))"
  have t: "trim (toLowerCase q) = []" using assms(2) by (rule trim_whitespace)
  have nq: "normalizeName q = []" using assms(2) by (rule normalizeName_whitespace)
  have names: "\<forall>s\<in>set (sculptures d). toLowerCase (name s) \<noteq> []"
  proof
    fix s assume "s \<in> set (sculptures d)"
    then have "normalizeName (name s) \<noteq> []" using assms(3) by blast
    then have "name s \<noteq> []" by auto
    then show "toLowerCase (name s) \<noteq> []" by (simp add: toLowerCase_def)
  qed
  have t1: "filter (\<lambda>s. toLowerCase (name s) = trim (toLowerCase q)) (sculptures d) = []"
    using names by (simp add: t filter_empty_conv)
  have t2: "filter (\<lambda>s. normalizeName (name s) = normalizeName q) (sculptures d) = []"
    using assms(3) by (simp add: nq filter_empty_conv)
  have t3: "filter (\<lambda>s. includes_js (toLowerCase (name s)) (trim (toLowerCase q)))
      (sculptures d) = sculptures d"
    by (simp add: t)
  have r: "r = sort_by ?cmp (sculptures d)"
    unfolding assms(4) findSculptureByName_unfold[OF assms(1)] t1 t2 t3 by simp
  have first: "\<exists>s. fst (getSculptureByName fs svc q) = Some s \<and> s \<in> set (sculptures d)
      \<and> (\<forall>t\<in>set (sculptures d). length (name t) \<le> length (name s))"
    if ne: "sculptures d \<noteq> []"
  proof -
    have "r \<noteq> []" using ne r by simp
    then have "fst (getSculptureByName fs svc q) = Some (hd (sort_by ?cmp (sculptures d)))"
      using r assms(4) by (simp add: getSculptureByName_hd)
    then show ?thesis
      using hd_sort_by_length[OF ne, of "\<lambda>s. length (name s)"] by simp
  qed
  show ?thesis
    using r first by (simp add: descending_sort_by stable_sort_by_name)
qed

theorem findSculptureByName_blank_query_witness:
  "mset (fst (findSculptureByName no_files (loaded elided) [CHR 0x09, CHR '' '']))
     = mset [tympanum elided, charles elided, anna elided, votive elided]
   \<and> descendingNameLength (fst (findSculptureByName no_files (loaded elided) [CHR 0x09, CHR '' '']))
   \<and> fst (getSculptureByName no_files (loaded elided) []) = Some (tympanum elided)"
proof -
  have n: "\<forall>s\<in>set (sculptures (sculptures_json elided)). normalizeName (name s) \<noteq> []"
    by (simp add: sculptures_of_json names normalized_names)
  have q1: "list_all isWhiteSpace [CHR 0x09, CHR '' '']" by code_simp
  have q2: "list_all isWhiteSpace []" by simp
  have "mset (fst (findSculptureByName no_files (loaded elided) [CHR 0x09, CHR '' '']))
       = mset [tympanum elided, charles elided, anna elided, votive elided]
     \<and> descendingNameLength
         (fst (findSculptureByName no_files (loaded elided) [CHR 0x09, CHR '' '']))"
    using findSculptureByName_blank_query[OF loaded_data[of no_files elided] q1 n refl]
    by (simp add: sculptures_of_json)
  moreover have "fst (getSculptureByName no_files (loaded elided) []) = Some (tympanum elided)"
  proof -
    obtain s where s: "fst (getSculptureByName no_files (loaded elided) []) = Some s"
      and mem: "s \<in> set (sculptures (sculptures_json elided))"
      and longest: "\<forall>t\<in>set (sculptures (sculptures_json elided)).
        length (name t) \<le> length (name s)"
      using findSculptureByName_blank_query[OF loaded_data[of no_files elided] q2 n refl]
      by (auto simp: sculptures_of_json)
    have "length (name (tympanum elided)) \<le> length (name s)"
      using longest by (simp add: sculptures_of_json)
    then have "s = tympanum elided"
      using mem by (auto simp: sculptures_of_json names name_lengths)
    then show ?thesis using s by simp
  qed
  ultimately show ?thesis by simp
qed

text \<open>
  C8, as stated, fails on a dataset in which a name normalizes to the empty string: the
  second tier then matches the empty query, and the result is those records only.
\<close>

theorem findSculptureByName_blank_query_counterexample:
  "fst (findSculptureByName no_files (holding (document [named ''?'', named ''Anna''])) [])
     = [named ''?'']
   \<and> fst (getSculptureByName no_files (holding (document [named ''?'', named ''Anna''])) [])
     = Some (named ''?'')
   \<and> sculptures (document [named ''?'', named ''Anna'']) = [named ''?'', named ''Anna'']
   \<and> length (name (named ''?'')) < length (name (named ''Anna''))"
  by code_simp

section \<open>Input audio events\<close>

text \<open>
  C7. For every \<open>input_audio\<close> event the handler first sends the \<open>speech_started\<close> control
  message to the client socket and then waits for the completion of the item. When the
  upstream signals completion, the handler then sends exactly one \<open>transcription\<close>
  message with the item's id and the final transcribed text, the empty string when none
  was produced, and returns. While the signal is missing (the wait rejects or stays
  pending) no transcription is sent.
\<close>

theorem handleInputAudio_trace:
  "take 2 (fst (handleInputAudio event))
     = [Send SpeechStarted, AwaitCompletion (item_id event)]
   \<and> (waitForCompletion event = Resolves \<longrightarrow>
        handleInputAudio event =
          ([Send SpeechStarted, AwaitCompletion (item_id event),
            Send (Transcription (item_id event)
              (case transcription event of None \<Rightarrow> [] | Some t \<Rightarrow> t))],
           Returned)
        \<and> transcriptionsSent (fst (handleInputAudio event))
          = [(item_id event, case transcription event of None \<Rightarrow> [] | Some t \<Rightarrow> t)])
   \<and> (waitForCompletion event \<noteq> Resolves \<longrightarrow>
        transcriptionsSent (fst (handleInputAudio event)) = []
        \<and> snd (handleInputAudio event) \<noteq> Returned)"
proof -
  have t: "(if truthy (transcription event) then the (transcription event) else [])
      = (case transcription event of None \<Rightarrow> [] | Some t \<Rightarrow> t)"
    by (cases "transcription event") auto
  show ?thesis
    by (cases "waitForCompletion event") (simp_all add: handleInputAudio_def t)
qed

theorem handleInputAudio_trace_witness:
  "handleInputAudio \<lparr>item_id = ''item_1'', waitForCompletion = Resolves,
       transcription = Some ''hello''\<rparr>
     = ([Send SpeechStarted, AwaitCompletion ''item_1'',
         Send (Transcription ''item_1'' ''hello'')], Returned)
   \<and> handleInputAudio \<lparr>item_id = ''item_2'', waitForCompletion = Resolves,
       transcription = None\<rparr>
     = ([Send SpeechStarted, AwaitCompletion ''item_2'',
         Send (Transcription ''item_2'' [])], Returned)
   \<and> transcriptionsSent (fst (handleInputAudio \<lparr>item_id = ''item_3'',
       waitForCompletion = Rejects ''closed'', transcription = None\<rparr>)) = []"
  using handleInputAudio_trace[of "\<lparr>item_id = ''item_1'', waitForCompletion = Resolves,
       transcription = Some ''hello''\<rparr>"]
    handleInputAudio_trace[of "\<lparr>item_id = ''item_2'', waitForCompletion = Resolves,
       transcription = None\<rparr>"]
    handleInputAudio_trace[of "\<lparr>item_id = ''item_3'',
       waitForCompletion = Rejects ''closed'', transcription = None\<rparr>"]
  by simp

section \<open>Enrichment of a user message\<close>

lemma broaderSearch_calls:
  "fst (broaderSearch fs svc msg) =
     Call_searchSculptures (asAllCriteria (rejoined msg))
     # (if fst (searchSculptures fs svc (asAllCriteria (rejoined msg))) = [] then []
        else [Call_sendItem
                (relevantMessage (fst (searchSculptures fs svc (asAllCriteria (rejoined msg)))))])"
  by (cases "searchSculptures fs svc (asAllCriteria (rejoined msg))")
    (simp add: broaderSearch_def Let_def asAllCriteria_def rejoined_def)


lemma set_join: "set (join xs sep) \<subseteq> (\<Union>x\<in>set xs. set x) \<union> set sep"
  by (induction xs sep rule: join.induct) auto

lemma set_split_ws: "(\<Union>x\<in>set (split_ws s). set x) \<subseteq> set s"
proof (induction s rule: split_ws.induct)
  case 1
  show ?case by simp
next
  case (2 c cs)
  show ?case
  proof (cases "isWhiteSpace c")
    case True
    have "(\<Union>x\<in>set (split_ws (dropWhile isWhiteSpace cs)). set x)
        \<subseteq> set (dropWhile isWhiteSpace cs)"
      using 2(1)[OF True] .
    also have "\<dots> \<subseteq> set cs" by (auto dest: set_dropWhileD)
    finally show ?thesis using True by auto
  next
    case False
    have ih: "(\<Union>x\<in>set (split_ws cs). set x) \<subseteq> set cs"
      using 2(2)[OF False] .
    show ?thesis
    proof (cases "split_ws cs")
      case Nil
      then show ?thesis using False by simp
    next
      case (Cons w ws)
      then have "set w \<subseteq> set cs" and "(\<Union>x\<in>set ws. set x) \<subseteq> set cs"
        using ih by auto
      then show ?thesis using False Cons by auto
    qed
  qed
qed

lemma toLowerCase_rejoined: "toLowerCase (rejoined msg) = rejoined msg"
proof -
  have "toLowerChar c = c" if "c \<in> set (rejoined msg)" for c
  proof -
    have "c \<in> set (toLowerCase msg) \<or> c = CHR '' ''"
      using that set_join[of "split_ws (toLowerCase msg)" "'' ''"]
        set_split_ws[of "toLowerCase msg"]
      unfolding rejoined_def by auto
    then show ?thesis
    proof
      assume "c \<in> set (toLowerCase msg)"
      then show ?thesis by (auto simp: toLowerCase_def)
    next
      assume "c = CHR '' ''"
      then show ?thesis by (simp add: toLowerChar_def)
    qed
  qed
  then show ?thesis unfolding toLowerCase_def by (simp add: map_idI)
qed

lemma searchSculptures_name:
  assumes "truthy (params.name ps)" and "s \<in> set (fst (searchSculptures fs svc ps))"
  shows "includes_js (toLowerCase (name s)) (trim (toLowerCase (the (params.name ps))))"
proof -
  have "matchesParams ps s"
    using assms(2)
    by (auto simp: searchSculptures_def Let_def split: option.splits if_splits)
  then show ?thesis
    using assms(1) by (auto simp: matchesParams_def split: if_splits)
qed

lemma fallback_matches:
  assumes "s \<in> set (fst (searchSculptures fs svc (asAllCriteria (rejoined msg))))"
  shows "includes_js (toLowerCase (name s)) (trim (rejoined msg))"
proof (cases "rejoined msg = []")
  case True
  then show ?thesis by (simp add: trim_def trimStart_def)
next
  case False
  then have "truthy (params.name (asAllCriteria (rejoined msg)))"
    by (simp add: asAllCriteria_def)
  then have "includes_js (toLowerCase (name s))
      (trim (toLowerCase (the (params.name (asAllCriteria (rejoined msg))))))"
    using assms by (rule searchSculptures_name)
  then show ?thesis by (simp add: asAllCriteria_def toLowerCase_rejoined)
qed

lemma searchesIssued_broaderSearch:
  "searchesIssued (fst (broaderSearch fs svc msg)) = [asAllCriteria (rejoined msg)]"
  by (simp add: broaderSearch_calls)

lemma searchesIssued_enrich:
  "set (searchesIssued (fst (enrichWithSculptureData fs ds msg)))
     \<subseteq> {asAllCriteria (rejoined msg)}"
proof (cases ds)
  case None
  then show ?thesis by (simp add: enrichWithSculptureData_def)
next
  case (Some svc)
  have b: "searchesIssued x = [asAllCriteria (rejoined msg)]"
    if "broaderSearch fs v msg = (x, y)" for v x y
    using searchesIssued_broaderSearch[of fs v msg] that by simp
  show ?thesis
    using Some b
    by (auto simp: enrichWithSculptureData_def Let_def split: prod.splits option.splits
        dest!: b)
qed

text \<open>
  C10, as amended. A present, non-empty \<open>name\<close> criterion is never skipped: every record
  that \<open>searchSculptures\<close> returns has a lower-cased name that contains the lower-cased
  trimmed \<open>name\<close> criterion, whatever the other criteria. The only search an enrichment
  issues supplies the rejoined message as every criterion, so that search matches a
  record only if the record's lower-cased name contains the rejoined message with the
  white space at its two ends trimmed.
\<close>

theorem name_criterion_never_skipped:
  "(truthy (params.name ps) \<longrightarrow>
      (\<forall>s\<in>set (fst (searchSculptures fs svc ps)).
         includes_js (toLowerCase (name s)) (trim (toLowerCase (the (params.name ps))))))
   \<and> set (searchesIssued (fst (enrichWithSculptureData fs ds msg)))
       \<subseteq> {asAllCriteria (rejoined msg)}
   \<and> (\<forall>s\<in>set (fst (searchSculptures fs svc (asAllCriteria (rejoined msg)))).
         includes_js (toLowerCase (name s)) (trim (rejoined msg)))"
  using searchSculptures_name[of ps _ fs svc] searchesIssued_enrich[of fs ds msg]
    fallback_matches[of _ fs svc msg]
  by blast

text \<open>
  C10, as stated, asks for the name to contain the entire rejoined message. The message
  \<open>"Schweidnitz "\<close> ends with a space and so does the rejoined message; the search trims
  it, and the record named \<open>Anna of Schweidnitz\<close> is matched and sent upstream although
  its name does not contain \<open>"schweidnitz "\<close>.
\<close>

theorem name_criterion_never_skipped_counterexample:
  "fst (enrichWithSculptureData no_files
          (Some (holding (document [named ''Anna of Schweidnitz'']))) ''Schweidnitz '')
     = [Call_searchSculptures (asAllCriteria ''schweidnitz ''),
        Call_sendItem (relevantMessage [named ''Anna of Schweidnitz''])]
   \<and> rejoined ''Schweidnitz '' = ''schweidnitz ''
   \<and> \<not> includes_js (toLowerCase ''Anna of Schweidnitz'') (rejoined ''Schweidnitz '')"
  by code_simp

theorem name_criterion_never_skipped_witness:
  "fst (searchSculptures no_files
          (holding (document [named ''Anna of Schweidnitz'', named ''Charles the fourth'']))
          (no_params\<lparr>params.name := Some ''ANNA '', params.artist := Some ''rodin''\<rparr>))
     = [named ''Anna of Schweidnitz'']
   \<and> includes_js (toLowerCase (name (named ''Anna of Schweidnitz'')))
        (trim (toLowerCase ''ANNA ''))
   \<and> fst (searchSculptures no_files
          (holding (document [named ''Anna of Schweidnitz'', named ''Charles the fourth'']))
          (asAllCriteria (rejoined ''Schweidnitz ''))) = [named ''Anna of Schweidnitz'']
   \<and> includes_js (toLowerCase (name (named ''Anna of Schweidnitz'')))
        (trim (rejoined ''Schweidnitz ''))"
proof -
  let ?svc = "holding (document [named ''Anna of Schweidnitz'', named ''Charles the fourth''])"
  let ?ps = "no_params\<lparr>params.name := Some ''ANNA '', params.artist := Some ''rodin''\<rparr>"
  have a: "fst (searchSculptures no_files ?svc ?ps) = [named ''Anna of Schweidnitz'']"
    by code_simp
  have b: "fst (searchSculptures no_files ?svc (asAllCriteria (rejoined ''Schweidnitz '')))
      = [named ''Anna of Schweidnitz'']"
    by code_simp
  have t: "truthy (params.name ?ps)" by simp
  show ?thesis
    using name_criterion_never_skipped[of ?ps no_files ?svc None "''Schweidnitz ''"] a b t
    by simp
qed



























end
